theory Spec2Isabelle
  imports Complex_Main
begin

section \<open>Marching squares: \<^verbatim>\<open>src/algorithms/marchingSquare.js\<close>\<close>

subsection \<open>JavaScript numbers\<close>

text \<open>
  The values the program computes with are JavaScript numbers and, where an array is read
  out of range, \<^verbatim>\<open>undefined\<close>. A number is an IEEE 754 double: finite, \<^verbatim>\<open>Infinity\<close>,
  \<^verbatim>\<open>-Infinity\<close> or \<^verbatim>\<open>NaN\<close>; the model has a single zero. An arithmetic operator or a
  comparison converts \<^verbatim>\<open>undefined\<close> to \<^verbatim>\<open>NaN\<close> first.
\<close>

datatype jsval = Undefined | NaN | NInf | Fin real | PInf

datatype error = TypeError

text \<open>
  An operation on two finite numbers computes the exact result and rounds it. The rounding
  is a parameter \<open>rnd\<close> of every function that computes: \<open>binary64\<close> below is the rounding
  of double precision, to the nearest double with ties to the even mantissa and with overflow
  to an infinity, which is what the program runs on; \<open>Fin\<close> is exact arithmetic.
\<close>

type_synonym rounding = "real \<Rightarrow> jsval"

definition round_ties_even :: "real \<Rightarrow> int" where
  "round_ties_even y =
     (let n = \<lfloor>y\<rfloor>
      in if y - of_int n < 1 / 2 then n
         else if 1 / 2 < y - of_int n then n + 1
         else if even n then n else n + 1)"

text \<open>
  The exponent of the unit in the last place at \<open>x\<close>: 52 below the exponent of \<open>x\<close>, and
  \<open>-1074\<close> throughout the subnormal range.
\<close>

definition ulp_exponent :: "real \<Rightarrow> int" where
  "ulp_exponent x = max (\<lfloor>log 2 \<bar>x\<bar>\<rfloor> - 52) (- 1074)"

definition binary64 :: rounding where
  "binary64 x =
     (if x = 0 then Fin 0
      else (let u = 2 powr of_int (ulp_exponent x);
                r = of_int (round_ties_even (x / u)) * u
            in if 2 ^ 1024 \<le> r then PInf else if r \<le> - (2 ^ 1024) then NInf else Fin r))"

text \<open>\<^verbatim>\<open>a + b\<close>\<close>

fun js_add :: "rounding \<Rightarrow> jsval \<Rightarrow> jsval \<Rightarrow> jsval" where
  "js_add rnd (Fin a) (Fin b) = rnd (a + b)"
| "js_add rnd (Fin a) PInf = PInf"
| "js_add rnd (Fin a) NInf = NInf"
| "js_add rnd PInf (Fin b) = PInf"
| "js_add rnd PInf PInf = PInf"
| "js_add rnd NInf (Fin b) = NInf"
| "js_add rnd NInf NInf = NInf"
| "js_add rnd _ _ = NaN"

text \<open>\<^verbatim>\<open>a - b\<close>\<close>

fun js_sub :: "rounding \<Rightarrow> jsval \<Rightarrow> jsval \<Rightarrow> jsval" where
  "js_sub rnd (Fin a) (Fin b) = rnd (a - b)"
| "js_sub rnd (Fin a) PInf = NInf"
| "js_sub rnd (Fin a) NInf = PInf"
| "js_sub rnd PInf (Fin b) = PInf"
| "js_sub rnd PInf NInf = PInf"
| "js_sub rnd NInf (Fin b) = NInf"
| "js_sub rnd NInf PInf = NInf"
| "js_sub rnd _ _ = NaN"

text \<open>\<^verbatim>\<open>a * b\<close>\<close>

fun js_mul :: "rounding \<Rightarrow> jsval \<Rightarrow> jsval \<Rightarrow> jsval" where
  "js_mul rnd (Fin a) (Fin b) = rnd (a * b)"
| "js_mul rnd (Fin a) PInf = (if a = 0 then NaN else if 0 < a then PInf else NInf)"
| "js_mul rnd (Fin a) NInf = (if a = 0 then NaN else if 0 < a then NInf else PInf)"
| "js_mul rnd PInf (Fin b) = (if b = 0 then NaN else if 0 < b then PInf else NInf)"
| "js_mul rnd NInf (Fin b) = (if b = 0 then NaN else if 0 < b then NInf else PInf)"
| "js_mul rnd PInf PInf = PInf"
| "js_mul rnd PInf NInf = NInf"
| "js_mul rnd NInf PInf = NInf"
| "js_mul rnd NInf NInf = PInf"
| "js_mul rnd _ _ = NaN"

text \<open>\<^verbatim>\<open>a / b\<close>; the single zero of the model divides as \<^verbatim>\<open>+0\<close> does.\<close>

fun js_div :: "rounding \<Rightarrow> jsval \<Rightarrow> jsval \<Rightarrow> jsval" where
  "js_div rnd (Fin a) (Fin b) =
     (if b \<noteq> 0 then rnd (a / b)
      else if a = 0 then NaN else if 0 < a then PInf else NInf)"
| "js_div rnd (Fin a) PInf = Fin 0"
| "js_div rnd (Fin a) NInf = Fin 0"
| "js_div rnd PInf (Fin b) = (if 0 \<le> b then PInf else NInf)"
| "js_div rnd NInf (Fin b) = (if 0 \<le> b then NInf else PInf)"
| "js_div rnd _ _ = NaN"

text \<open>\<^verbatim>\<open>a > b\<close>\<close>

fun js_gt :: "jsval \<Rightarrow> jsval \<Rightarrow> bool" where
  "js_gt (Fin a) (Fin b) = (b < a)"
| "js_gt (Fin a) NInf = True"
| "js_gt PInf (Fin b) = True"
| "js_gt PInf NInf = True"
| "js_gt _ _ = False"

text \<open>\<^verbatim>\<open>a >= b\<close>\<close>

fun js_ge :: "jsval \<Rightarrow> jsval \<Rightarrow> bool" where
  "js_ge (Fin a) (Fin b) = (b \<le> a)"
| "js_ge (Fin a) NInf = True"
| "js_ge PInf (Fin b) = True"
| "js_ge PInf NInf = True"
| "js_ge PInf PInf = True"
| "js_ge NInf NInf = True"
| "js_ge _ _ = False"

text \<open>\<^verbatim>\<open>a === b\<close>: no conversion, and \<^verbatim>\<open>NaN\<close> differs from itself.\<close>

fun strict_eq :: "jsval \<Rightarrow> jsval \<Rightarrow> bool" where
  "strict_eq Undefined Undefined = True"
| "strict_eq (Fin a) (Fin b) = (a = b)"
| "strict_eq PInf PInf = True"
| "strict_eq NInf NInf = True"
| "strict_eq _ _ = False"

text \<open>\<^verbatim>\<open>xs[i]\<close> on an array: \<^verbatim>\<open>undefined\<close> out of range.\<close>

definition nth_js :: "jsval list \<Rightarrow> nat \<Rightarrow> jsval" where
  "nth_js xs i = (if i < length xs then xs ! i else Undefined)"

text \<open>A call that may throw returns in a sum; \<open>andThen\<close> sequences two of them.\<close>

definition andThen :: "error + 'a \<Rightarrow> ('a \<Rightarrow> error + 'b) \<Rightarrow> error + 'b" where
  "andThen r f = (case r of Inl e \<Rightarrow> Inl e | Inr v \<Rightarrow> f v)"

text \<open>A loop over the indices or elements \<open>xs\<close> that updates the state \<open>s\<close>.\<close>

fun for_each :: "('i \<Rightarrow> 's \<Rightarrow> error + 's) \<Rightarrow> 'i list \<Rightarrow> 's \<Rightarrow> error + 's" where
  "for_each f [] s = Inr s"
| "for_each f (x # xs) s = (case f x s of Inl e \<Rightarrow> Inl e | Inr s' \<Rightarrow> for_each f xs s')"

subsection \<open>The tables and \<^verbatim>\<open>linearInterpolation\<close>\<close>

definition basicLineTable :: "(nat \<times> nat) list list" where
  "basicLineTable =
     [[], [(0, 3)], [(0, 1)], [(1, 3)],
      [(1, 2)], [(0, 1), (2, 3)], [(0, 2)], [(2, 3)],
      [(2, 3)], [(0, 2)], [(0, 3), (1, 2)], [(1, 2)],
      [(1, 3)], [(0, 1)], [(0, 3)], []]"

definition lineEndPoints :: "(jsval \<times> jsval) list" where
  "lineEndPoints =
     [(Fin (1 / 2), Fin 1), (Fin 1, Fin (1 / 2)), (Fin (1 / 2), Fin 0), (Fin 0, Fin (1 / 2))]"

definition linearInterpolation :: "rounding \<Rightarrow> jsval \<Rightarrow> jsval \<Rightarrow> jsval \<Rightarrow> jsval" where
  "linearInterpolation rnd v1 v2 v_iso =
     (if strict_eq v2 v1 then PInf else js_div rnd (js_sub rnd v_iso v1) (js_sub rnd v2 v1))"

subsection \<open>The class \<^verbatim>\<open>Square\<close>\<close>

text \<open>
  A field that holds \<^verbatim>\<open>null\<close> or \<^verbatim>\<open>undefined\<close> is \<open>None\<close>. \<^verbatim>\<open>basicLines\<close>
  becomes \<^verbatim>\<open>undefined\<close> when the table is read out of range.
\<close>

record Square =
  column :: nat
  row :: nat
  cornerValue :: "jsval list option"
  cornerBinary :: "nat list option"
  basicLines :: "(nat \<times> nat) list option"

definition new_Square :: "nat \<Rightarrow> nat \<Rightarrow> Square" where
  "new_Square c r =
     \<lparr>column = c, row = r, cornerValue = None, cornerBinary = None, basicLines = Some []\<rparr>"

definition getCornerBinary :: "Square \<Rightarrow> jsval \<Rightarrow> Square" where
  "getCornerBinary sq isoValue =
     (case cornerValue sq of
        None \<Rightarrow> sq
      | Some cv \<Rightarrow>
          sq\<lparr>cornerBinary := Some (map (\<lambda>val. if js_gt val isoValue then 1 else 0) cv)\<rparr>)"

text \<open>\<^verbatim>\<open>cornerBinary.forEach((val, ind) => { sum += val * 2 ** ind })\<close>\<close>

definition binary_sum :: "nat list \<Rightarrow> nat" where
  "binary_sum cb = foldl (\<lambda>sum (val, ind). sum + val * 2 ^ ind) 0 (zip cb [0..<length cb])"

text \<open>\<^verbatim>\<open>basicLineTable[sum]\<close>\<close>

definition table_at :: "nat \<Rightarrow> (nat \<times> nat) list option" where
  "table_at n = (if n < length basicLineTable then Some (basicLineTable ! n) else None)"

text \<open>
  \<^verbatim>\<open>this.cornerValue.reduce((a, b) => a + b)\<close>: throws on \<^verbatim>\<open>null\<close> and on the
  empty array, which has no first element to start from.
\<close>

definition reduce_add :: "rounding \<Rightarrow> jsval list option \<Rightarrow> error + jsval" where
  "reduce_add rnd cvo =
     (case cvo of
        None \<Rightarrow> Inl TypeError
      | Some [] \<Rightarrow> Inl TypeError
      | Some (x # xs) \<Rightarrow> Inr (foldl (js_add rnd) x xs))"

definition getBasicLines :: "rounding \<Rightarrow> Square \<Rightarrow> jsval \<Rightarrow> error + Square" where
  "getBasicLines rnd sq isoValue =
     (case cornerBinary sq of
        None \<Rightarrow> Inr sq
      | Some cb \<Rightarrow>
          (let sum = binary_sum cb;
               sq1 = sq\<lparr>basicLines := table_at sum\<rparr>
           in if sum = 5 then
                andThen (reduce_add rnd (cornerValue sq1)) (\<lambda>total.
                  if js_ge (js_div rnd total (Fin 4)) isoValue
                  then Inr (sq1\<lparr>basicLines := Some [(0, 3), (1, 2)]\<rparr>)
                  else Inr (sq1\<lparr>basicLines := Some [(0, 1), (2, 3)]\<rparr>))
              else if sum = 10 then
                andThen (reduce_add rnd (cornerValue sq1)) (\<lambda>total.
                  if js_ge (js_div rnd total (Fin 4)) isoValue
                  then Inr (sq1\<lparr>basicLines := Some [(0, 1), (2, 3)]\<rparr>)
                  else Inr (sq1\<lparr>basicLines := Some [(0, 3), (1, 2)]\<rparr>))
              else Inr sq1))"

text \<open>
  The first half of \<^verbatim>\<open>getActualLines\<close>: the four interpolation values, then the flip of
  side 1 and side 2.
\<close>

definition interpoValues :: "rounding \<Rightarrow> jsval list \<Rightarrow> jsval \<Rightarrow> jsval list" where
  "interpoValues rnd cv isoValue =
     (let iv = map (\<lambda>k. linearInterpolation rnd (nth_js cv k) (nth_js cv ((k + 1) mod 4))
                          isoValue)
                 [0..<4];
          iv = iv[1 := js_sub rnd (Fin 1) (nth_js iv 1)];
          iv = iv[2 := js_sub rnd (Fin 1) (nth_js iv 2)]
      in iv)"

type_synonym point = "jsval \<times> jsval"
type_synonym segment = "point \<times> point"

text \<open>\<^verbatim>\<open>lineEndPoints[e]\<close>, whose components are read next: throws out of range.\<close>

definition lineEndPoints_at :: "nat \<Rightarrow> error + jsval \<times> jsval" where
  "lineEndPoints_at e = (if e < length lineEndPoints then Inr (lineEndPoints ! e) else Inl TypeError)"

text \<open>One end of \<^verbatim>\<open>newLine\<close>, for the edge \<open>e\<close> (\<^verbatim>\<open>l[0]\<close> or \<^verbatim>\<open>l[1]\<close>).\<close>

definition endPoint ::
  "rounding \<Rightarrow> Square \<Rightarrow> jsval list \<Rightarrow> jsval \<Rightarrow> jsval \<Rightarrow> jsval \<Rightarrow> nat \<Rightarrow> error + point"
  where
  "endPoint rnd sq iv lngStart latStart len e =
     andThen (lineEndPoints_at e) (\<lambda>(bx, by).
       Inr (js_add rnd lngStart
              (js_mul rnd (js_add rnd (js_add rnd (Fin (real (column sq))) bx)
                                      (if e = 0 \<or> e = 2 then nth_js iv e else Fin (1 / 2)))
                          len),
            js_add rnd latStart
              (js_mul rnd (js_add rnd (js_add rnd (Fin (real (row sq))) by)
                                      (if e = 1 \<or> e = 3 then nth_js iv e else Fin (1 / 2)))
                          len)))"

definition getActualLines ::
  "rounding \<Rightarrow> Square \<Rightarrow> segment list \<Rightarrow> jsval \<Rightarrow> jsval \<Rightarrow> jsval \<Rightarrow> jsval
     \<Rightarrow> error + segment list" where
  "getActualLines rnd sq result lngStart latStart len isoValue =
     (case cornerValue sq of
        None \<Rightarrow> Inl TypeError
      | Some cv \<Rightarrow>
          (let iv = interpoValues rnd cv isoValue
           in case basicLines sq of
                None \<Rightarrow> Inl TypeError
              | Some ls \<Rightarrow>
                  for_each (\<lambda>l res.
                      andThen (endPoint rnd sq iv lngStart latStart len (fst l)) (\<lambda>p.
                      andThen (endPoint rnd sq iv lngStart latStart len (snd l)) (\<lambda>q.
                        Inr (res @ [(p, q)]))))
                    ls result))"

subsection \<open>\<^verbatim>\<open>marchingSquare\<close>\<close>

text \<open>\<^verbatim>\<open>discreteData[r][c]\<close>: throws when the row is missing, \<^verbatim>\<open>undefined\<close> past its end.\<close>

definition sample :: "jsval list list \<Rightarrow> nat \<Rightarrow> nat \<Rightarrow> error + jsval" where
  "sample discreteData r c =
     (if r < length discreteData then Inr (nth_js (discreteData ! r) c) else Inl TypeError)"

text \<open>The four corner values of the square at row \<open>i\<close> and column \<open>j\<close>, in the order stored.\<close>

definition corners :: "jsval list list \<Rightarrow> nat \<Rightarrow> nat \<Rightarrow> error + jsval list" where
  "corners discreteData i j =
     andThen (sample discreteData (i + 1) j) (\<lambda>c0.
     andThen (sample discreteData (i + 1) (j + 1)) (\<lambda>c1.
     andThen (sample discreteData i (j + 1)) (\<lambda>c2.
     andThen (sample discreteData i j) (\<lambda>c3.
       Inr [c0, c1, c2, c3]))))"

text \<open>
  The body of the inner loop. \<^verbatim>\<open>squareMatrix[i][j]\<close> is the square pushed just before,
  and \<^verbatim>\<open>squareMatrix\<close> is never read otherwise nor returned, so the square is a local value.
\<close>

definition cell_step ::
  "rounding \<Rightarrow> jsval list list \<Rightarrow> jsval \<Rightarrow> jsval \<Rightarrow> jsval \<Rightarrow> jsval \<Rightarrow> nat \<Rightarrow> nat
     \<Rightarrow> segment list \<Rightarrow> error + segment list" where
  "cell_step rnd discreteData isoValue lngStart latStart gridSize i j result =
     andThen (corners discreteData i j) (\<lambda>cv.
       (let sq = (new_Square j i)\<lparr>cornerValue := Some cv\<rparr>;
            sq = getCornerBinary sq isoValue
        in andThen (getBasicLines rnd sq isoValue) (\<lambda>sq.
             getActualLines rnd sq result lngStart latStart gridSize isoValue)))"

text \<open>
  \<^verbatim>\<open>discreteData[0].length\<close> throws on the empty array. Both loops count up from 0, to
  \<^verbatim>\<open>rowN - 1\<close> and \<^verbatim>\<open>columnN - 1\<close> exclusive; with \<^verbatim>\<open>columnN = 0\<close> the bound is
  \<^verbatim>\<open>-1\<close> and the loop is empty, as \<open>[0..<0 - 1]\<close> is.
\<close>

definition marchingSquare ::
  "rounding \<Rightarrow> jsval list list \<Rightarrow> jsval \<Rightarrow> jsval \<Rightarrow> jsval \<Rightarrow> jsval
     \<Rightarrow> error + segment list" where
  "marchingSquare rnd discreteData isoValue lngStart latStart gridSize =
     (case discreteData of
        [] \<Rightarrow> Inl TypeError
      | row0 # _ \<Rightarrow>
          (let columnN = length row0;
               rowN = length discreteData
           in for_each (\<lambda>i result.
                  for_each (\<lambda>j result.
                      cell_step rnd discreteData isoValue lngStart latStart gridSize i j result)
                    [0..<columnN - 1] result)
                [0..<rowN - 1] []))"

section \<open>Definitions for the statements\<close>

text \<open>
  What the loop body does to one square, by its source lines: a new square with its four corner
  values (lines 39 to 47), then \<^verbatim>\<open>getCornerBinary\<close> and \<^verbatim>\<open>getBasicLines\<close> (lines 50
  and 53), and the \<^verbatim>\<open>basicLines\<close> it holds afterwards.
\<close>

definition cell_square :: "nat \<Rightarrow> nat \<Rightarrow> jsval list \<Rightarrow> Square" where
  "cell_square j i cv = (new_Square j i)\<lparr>cornerValue := Some cv\<rparr>"

definition classify :: "rounding \<Rightarrow> Square \<Rightarrow> jsval \<Rightarrow> error + Square" where
  "classify rnd sq isoValue = getBasicLines rnd (getCornerBinary sq isoValue) isoValue"

definition resolved_lines ::
  "rounding \<Rightarrow> nat \<Rightarrow> nat \<Rightarrow> jsval list \<Rightarrow> jsval \<Rightarrow> error + (nat \<times> nat) list option" where
  "resolved_lines rnd j i cv isoValue =
     andThen (classify rnd (cell_square j i cv) isoValue) (\<lambda>sq. Inr (basicLines sq))"

text \<open>The same as a plain list, for the squares where classification returns one.\<close>

definition line_pattern :: "rounding \<Rightarrow> jsval list \<Rightarrow> jsval \<Rightarrow> (nat \<times> nat) list" where
  "line_pattern rnd cv isoValue =
     (case resolved_lines rnd 0 0 cv isoValue of Inr (Some ls) \<Rightarrow> ls | _ \<Rightarrow> [])"

text \<open>
  The corner values of the square at row \<open>i\<close> and column \<open>j\<close>, for \<open>i + 1\<close> a row of the
  grid (\<open>corners\<close> without the check of the row).
\<close>

definition corner_values :: "jsval list list \<Rightarrow> nat \<Rightarrow> nat \<Rightarrow> jsval list" where
  "corner_values discreteData i j =
     [nth_js (discreteData ! (i + 1)) j, nth_js (discreteData ! (i + 1)) (j + 1),
      nth_js (discreteData ! i) (j + 1), nth_js (discreteData ! i) j]"

text \<open>
  The specification's 4-bit code of a square: bit \<open>k\<close> is set when corner \<open>k\<close> is strictly
  greater than the threshold, and weighs \<open>2 ^ k\<close>.
\<close>

definition cell_code :: "jsval list \<Rightarrow> jsval \<Rightarrow> nat" where
  "cell_code cv isoValue =
     (\<Sum>k\<leftarrow>[0..<4]. (if js_gt (nth_js cv k) isoValue then 1 else 0) * 2 ^ k)"

text \<open>Table 1 of the specification, at the fourteen codes that are not saddles.\<close>

definition spec_table1 :: "nat \<Rightarrow> (nat \<times> nat) list" where
  "spec_table1 n =
     (if n = 1 then [(0, 3)] else if n = 2 then [(0, 1)] else if n = 3 then [(1, 3)]
      else if n = 4 then [(1, 2)] else if n = 6 then [(0, 2)] else if n = 7 then [(2, 3)]
      else if n = 8 then [(2, 3)] else if n = 9 then [(0, 2)] else if n = 11 then [(1, 2)]
      else if n = 12 then [(1, 3)] else if n = 13 then [(0, 1)] else if n = 14 then [(0, 3)]
      else [])"

text \<open>
  The projection as the specification words it, for the square at column \<open>col\<close> and row
  \<open>rw\<close>, the edge \<open>e\<close> and the position \<open>t\<close> along it: edges 0 and 2 take
  \<open>x = lngStart + (col + t) * gridSize\<close> and \<open>y = latStart + (rw + baseY) * gridSize\<close>, edges
  1 and 3 take \<open>x = lngStart + (col + baseX) * gridSize\<close> and
  \<open>y = latStart + (rw + t) * gridSize\<close>.
\<close>

definition spec_point ::
  "rounding \<Rightarrow> jsval \<Rightarrow> jsval \<Rightarrow> jsval \<Rightarrow> nat \<Rightarrow> nat \<Rightarrow> nat \<Rightarrow> jsval \<Rightarrow> point" where
  "spec_point rnd lngStart latStart gridSize col rw e t =
     (if e = 0 \<or> e = 2
      then (js_add rnd lngStart (js_mul rnd (js_add rnd (Fin (real col)) t) gridSize),
            js_add rnd latStart
              (js_mul rnd (js_add rnd (Fin (real rw)) (Fin (if e = 0 then 1 else 0))) gridSize))
      else (js_add rnd lngStart
              (js_mul rnd (js_add rnd (Fin (real col)) (Fin (if e = 1 then 1 else 0))) gridSize),
            js_add rnd latStart (js_mul rnd (js_add rnd (Fin (real rw)) t) gridSize)))"

text \<open>
  The projection with every grid coordinate half a cell further: edges 0 and 2 take
  \<open>x = lngStart + (col + 1/2 + t) * gridSize\<close> and
  \<open>y = latStart + (rw + baseY + 1/2) * gridSize\<close>, edges 1 and 3 take
  \<open>x = lngStart + (col + baseX + 1/2) * gridSize\<close> and
  \<open>y = latStart + (rw + 1/2 + t) * gridSize\<close>; \<open>baseY\<close> is 1 for edge 0 and 0 for edge 2,
  \<open>baseX\<close> is 1 for edge 1 and 0 for edge 3.
\<close>

definition world_point ::
  "rounding \<Rightarrow> jsval \<Rightarrow> jsval \<Rightarrow> jsval \<Rightarrow> nat \<Rightarrow> nat \<Rightarrow> nat \<Rightarrow> jsval \<Rightarrow> point" where
  "world_point rnd lngStart latStart gridSize col rw e t =
     (if e = 0 \<or> e = 2
      then (js_add rnd lngStart
              (js_mul rnd (js_add rnd (js_add rnd (Fin (real col)) (Fin (1 / 2))) t) gridSize),
            js_add rnd latStart
              (js_mul rnd (js_add rnd (js_add rnd (Fin (real rw)) (Fin (if e = 0 then 1 else 0)))
                                      (Fin (1 / 2)))
                          gridSize))
      else (js_add rnd lngStart
              (js_mul rnd (js_add rnd (js_add rnd (Fin (real col)) (Fin (if e = 1 then 1 else 0)))
                                      (Fin (1 / 2)))
                          gridSize),
            js_add rnd latStart
              (js_mul rnd (js_add rnd (js_add rnd (Fin (real rw)) (Fin (1 / 2))) t) gridSize)))"

text \<open>The segments of one square: one for each pair of its line pattern, in order.\<close>

definition cell_segments ::
  "rounding \<Rightarrow> jsval list list \<Rightarrow> jsval \<Rightarrow> jsval \<Rightarrow> jsval \<Rightarrow> jsval \<Rightarrow> nat \<Rightarrow> nat
     \<Rightarrow> segment list" where
  "cell_segments rnd discreteData isoValue lngStart latStart gridSize i j =
     (let cv = corner_values discreteData i j;
          iv = interpoValues rnd cv isoValue
      in map (\<lambda>l. (world_point rnd lngStart latStart gridSize j i (fst l) (nth_js iv (fst l)),
                    world_point rnd lngStart latStart gridSize j i (snd l) (nth_js iv (snd l))))
           (line_pattern rnd cv isoValue))"

text \<open>The grid of the specification's concrete scenario.\<close>

definition scenario :: "jsval list list" where
  "scenario = [[Fin 1, Fin 1], [Fin 1, Fin 10]]"

text \<open>A grid as the specification's data model has it: every row as long as the first.\<close>

definition rectangular :: "jsval list list \<Rightarrow> bool" where
  "rectangular discreteData = (\<forall>r \<in> set discreteData. length r = length (hd discreteData))"

definition is_finite :: "jsval \<Rightarrow> bool" where
  "is_finite v = (case v of Fin _ \<Rightarrow> True | _ \<Rightarrow> False)"




text \<open>
  What a read of the grid returns once \<open>k\<close> is added, in exact arithmetic, to every sample:
  the old value plus \<open>k\<close>, or \<^verbatim>\<open>undefined\<close> as before where the read is out of range.
\<close>

definition shifted :: "real \<Rightarrow> jsval \<Rightarrow> jsval \<Rightarrow> bool" where
  "shifted k c c' = (c' = js_add Fin c (Fin k) \<or> (c = Undefined \<and> c' = Undefined))"



section \<open>Double precision\<close>

text \<open>
  A double is a real \<open>m * 2 ^ k\<close> with \<open>\<bar>m\<bar> < 2 ^ 53\<close> and \<open>-1074 \<le> k \<le> 971\<close>: it rounds
  to itself. A result of \<open>2 ^ 1024\<close> and more overflows. Two different doubles have a
  difference that does not round to zero.
\<close>

lemma round_ties_even_int [simp]: "round_ties_even (of_int n) = n"
  by (simp add: round_ties_even_def)

lemma round_ties_even_floor:
  "\<lfloor>y\<rfloor> \<le> round_ties_even y \<and> round_ties_even y \<le> \<lfloor>y\<rfloor> + 1"
  by (simp add: round_ties_even_def Let_def)

lemma round_ties_even_ge: "of_int n \<le> y \<Longrightarrow> n \<le> round_ties_even y"
proof -
  assume "of_int n \<le> y"
  then have "n \<le> \<lfloor>y\<rfloor>" by (simp add: le_floor_iff)
  with round_ties_even_floor [of y] show ?thesis by linarith
qed

lemma round_ties_even_le: "y \<le> of_int n \<Longrightarrow> round_ties_even y \<le> n"
proof (cases "y = of_int n")
  case True
  then show ?thesis by simp
next
  case False
  assume "y \<le> of_int n"
  with False have "y < of_int n" by simp
  then have "\<lfloor>y\<rfloor> < n" by (simp add: floor_less_iff)
  with round_ties_even_floor [of y] show ?thesis by linarith
qed

lemma ulp_exponent_bracket:
  assumes "2 powr of_int k \<le> \<bar>x\<bar>" "\<bar>x\<bar> < 2 powr (of_int k + 1)"
  shows "ulp_exponent x = max (k - 52) (- 1074)"
proof -
  have "(0::real) < 2 powr of_int k" by simp
  with assms(1) have "0 < \<bar>x\<bar>" by linarith
  then have "\<lfloor>log 2 \<bar>x\<bar>\<rfloor> = k"
    using assms by (simp add: floor_log_eq_powr_iff)
  then show ?thesis by (simp add: ulp_exponent_def)
qed


lemma powr_int_split:
  assumes "e \<le> k"
  shows "(2::real) powr of_int k = 2 ^ nat (k - e) * 2 powr of_int e"
proof -
  have "of_int k = real (nat (k - e)) + of_int e" using assms by simp
  then have "(2::real) powr of_int k = 2 powr real (nat (k - e)) * 2 powr of_int e"
    by (simp only: powr_add)
  then show ?thesis by (simp add: powr_realpow)
qed

lemma ulp_exponent_le:
  assumes "x \<noteq> 0" "\<bar>x\<bar> < 2 powr (of_int k + 53)" "- 1074 \<le> k"
  shows "ulp_exponent x \<le> k"
proof -
  have pos: "0 < \<bar>x\<bar>" using assms(1) by simp
  define L where "L = \<lfloor>log 2 \<bar>x\<bar>\<rfloor>"
  have "2 powr of_int L \<le> \<bar>x\<bar>"
    using floor_log_eq_powr_iff [of "\<bar>x\<bar>" 2 L] pos by (simp add: L_def)
  with assms(2) have "(2::real) powr of_int L < 2 powr (of_int k + 53)" by linarith
  then have "real_of_int L < of_int k + 53" by simp
  then have "L < k + 53" by linarith
  with assms(3) show ?thesis by (simp add: ulp_exponent_def L_def)
qed

lemma binary64_representable:
  assumes x: "x = of_int m * 2 powr of_int k" and m: "\<bar>m\<bar> < 2 ^ 53"
    and k: "- 1074 \<le> k" "k \<le> 971"
  shows "binary64 x = Fin x"
proof (cases "m = 0")
  case True
  then show ?thesis by (simp add: x binary64_def)
next
  case False
  have p: "(0::real) < 2 powr of_int k" by simp
  have x0: "x \<noteq> 0" using False by (simp add: x)
  have absx: "\<bar>x\<bar> = of_int \<bar>m\<bar> * 2 powr of_int k"
    by (simp add: x abs_mult)
  have "real_of_int \<bar>m\<bar> < 2 ^ 53" using m by (metis of_int_less_iff of_int_numeral of_int_power)
  then have lt: "\<bar>x\<bar> < 2 ^ 53 * 2 powr of_int k"
    unfolding absx using p by (simp only: mult_less_cancel_right_pos)
  have "(2::real) ^ 53 * 2 powr of_int k = 2 powr (of_int k + 53)"
    by (simp add: powr_add)
  with lt have lt': "\<bar>x\<bar> < 2 powr (of_int k + 53)" by simp
  define e where "e = ulp_exponent x"
  have ek: "e \<le> k" unfolding e_def by (rule ulp_exponent_le [OF x0 lt' k(1)])
  have u: "(0::real) < 2 powr of_int e" by simp
  have q: "x / 2 powr of_int e = of_int (m * 2 ^ nat (k - e))"
    using u by (simp add: x powr_int_split [OF ek])
  have "of_int (round_ties_even (x / 2 powr of_int e)) * 2 powr of_int e
      = of_int (m * 2 ^ nat (k - e)) * 2 powr of_int e"
    by (simp only: q round_ties_even_int)
  also have "\<dots> = x"
    by (simp add: x powr_int_split [OF ek])
  finally have r: "of_int (round_ties_even (x / 2 powr of_int e)) * 2 powr of_int e = x" .
  have "(2::real) powr of_int k \<le> 2 powr of_int 971"
    using k(2) by (intro powr_mono) simp_all
  also have "(2::real) powr of_int 971 = 2 ^ 971" by simp
  finally have "(2::real) ^ 53 * 2 powr of_int k \<le> 2 ^ 53 * 2 ^ 971" by simp
  with lt have "\<bar>x\<bar> < 2 ^ 1024" by simp
  then have "\<not> 2 ^ 1024 \<le> x" "\<not> x \<le> - (2 ^ 1024)" by linarith+
  then show ?thesis
    using x0 r by (simp add: binary64_def Let_def e_def [symmetric])
qed


lemma binary64_mult_pow:
  assumes "\<bar>m\<bar> < 2 ^ 53" "n \<le> 971"
  shows "binary64 (of_int m * 2 ^ n) = Fin (of_int m * 2 ^ n)"
proof -
  have "(2::real) ^ n = 2 powr of_int (int n)" by (simp add: powr_realpow)
  then show ?thesis
    using binary64_representable [of "of_int m * 2 ^ n" m "int n"] assms by simp
qed

lemma binary64_div_pow:
  assumes "\<bar>m\<bar> < 2 ^ 53" "n \<le> 1074"
  shows "binary64 (of_int m / 2 ^ n) = Fin (of_int m / 2 ^ n)"
proof -
  have "1 / (2::real) ^ n = 2 powr of_int (- int n)"
    by (simp add: powr_minus powr_realpow inverse_eq_divide)
  moreover have "real_of_int m / 2 ^ n = of_int m * (1 / 2 ^ n)" by simp
  ultimately have "real_of_int m / 2 ^ n = of_int m * 2 powr of_int (- int n)"
    by (simp only:)
  then show ?thesis
    using binary64_representable [of "of_int m / 2 ^ n" m "- int n"] assms by simp
qed

lemma binary64_overflow:
  assumes "2 ^ 1024 \<le> x"
  shows "binary64 x = PInf"
proof -
  have x0: "0 < x" using assms zero_less_power [of "2::real" 1024] by linarith
  define L where "L = \<lfloor>log 2 \<bar>x\<bar>\<rfloor>"
  have low: "2 powr of_int L \<le> x"
    using floor_log_eq_powr_iff [of "\<bar>x\<bar>" 2 L] x0 by (simp add: L_def)
  have "(2::real) powr of_int 1024 \<le> \<bar>x\<bar>" using assms x0 by simp
  then have "of_int 1024 \<le> log 2 \<bar>x\<bar>" using x0 by (simp add: le_log_iff)
  then have L: "1024 \<le> L" by (simp add: L_def le_floor_iff)
  then have e: "ulp_exponent x = L - 52" by (simp add: ulp_exponent_def L_def)
  define u where "u = (2::real) powr of_int (L - 52)"
  have u: "0 < u" by (simp add: u_def)
  have split: "(2::real) powr of_int L = 2 ^ 52 * u"
    unfolding u_def using powr_int_split [of "L - 52" L] by simp
  with low u have "of_int (2 ^ 52) \<le> x / u" by (simp add: pos_le_divide_eq)
  then have "2 ^ 52 \<le> round_ties_even (x / u)" by (rule round_ties_even_ge)
  then have "(2::real) ^ 52 \<le> of_int (round_ties_even (x / u))"
    by (metis of_int_le_iff of_int_numeral of_int_power)
  with u have "2 ^ 52 * u \<le> of_int (round_ties_even (x / u)) * u" by simp
  with split have "2 powr of_int L \<le> of_int (round_ties_even (x / u)) * u" by simp
  moreover have "(2::real) powr of_int 1024 \<le> 2 powr of_int L"
    using L by (intro powr_mono) simp_all
  moreover have "(2::real) powr of_int 1024 = 2 ^ 1024" by simp
  ultimately have "2 ^ 1024 \<le> of_int (round_ties_even (x / u)) * u" by linarith
  then show ?thesis
    using x0 by (simp add: binary64_def Let_def e u_def)
qed


lemma binary64_number: "binary64 x \<noteq> NaN \<and> binary64 x \<noteq> Undefined"
  by (simp add: binary64_def Let_def)

lemma ulp_le_abs:
  assumes "2 powr of_int (- 1074) \<le> \<bar>x\<bar>"
  shows "2 powr of_int (ulp_exponent x) \<le> \<bar>x\<bar>"
proof -
  have "(0::real) < 2 powr of_int (- 1074)" by simp
  with assms have pos: "0 < \<bar>x\<bar>" by linarith
  define L where "L = \<lfloor>log 2 \<bar>x\<bar>\<rfloor>"
  have "2 powr of_int L \<le> \<bar>x\<bar>"
    using floor_log_eq_powr_iff [of "\<bar>x\<bar>" 2 L] pos by (simp add: L_def)
  moreover have "(2::real) powr of_int (L - 52) \<le> 2 powr of_int L"
    by (intro powr_mono) simp_all
  ultimately have "2 powr of_int (L - 52) \<le> \<bar>x\<bar>" by linarith
  with assms show ?thesis
    by (simp add: ulp_exponent_def L_def [symmetric] max_def)
qed

lemma binary64_nonzero:
  assumes "2 powr of_int (- 1074) \<le> \<bar>x\<bar>"
  shows "binary64 x \<noteq> Fin 0"
proof -
  define u where "u = (2::real) powr of_int (ulp_exponent x)"
  have u: "0 < u" by (simp add: u_def)
  have "(0::real) < 2 powr of_int (- 1074)" by simp
  with assms have x0: "x \<noteq> 0" by linarith
  from ulp_le_abs [OF assms] have "u \<le> \<bar>x\<bar>" by (simp add: u_def)
  then have "1 \<le> \<bar>x\<bar> / u" using u by (simp add: pos_le_divide_eq)
  then have "1 \<le> \<bar>x / u\<bar>" using u by simp
  then have "of_int 1 \<le> x / u \<or> x / u \<le> of_int (- 1)" by (simp add: abs_if split: if_splits)
  then have "1 \<le> round_ties_even (x / u) \<or> round_ties_even (x / u) \<le> - 1"
    using round_ties_even_ge [of 1 "x / u"] round_ties_even_le [of "x / u" "- 1"] by blast
  then have "round_ties_even (x / u) \<noteq> 0" by linarith
  then have "of_int (round_ties_even (x / u)) * u \<noteq> 0" using u by simp
  then show ?thesis
    using x0 by (simp add: binary64_def Let_def u_def)
qed

lemma double_grid:
  assumes "binary64 a = Fin a"
  shows "\<exists>n. a = of_int n * 2 powr of_int (- 1074)"
proof (cases "a = 0")
  case True
  then show ?thesis by (intro exI [of _ 0]) simp
next
  case False
  define e where "e = ulp_exponent a"
  define q where "q = round_ties_even (a / 2 powr of_int e)"
  have e: "- 1074 \<le> e" by (simp add: e_def ulp_exponent_def)
  from assms False have "a = of_int q * 2 powr of_int e"
    by (simp add: binary64_def Let_def e_def q_def split: if_splits)
  also have "\<dots> = of_int (q * 2 ^ nat (e - (- 1074))) * 2 powr of_int (- 1074)"
    by (simp add: powr_int_split [OF e])
  finally show ?thesis by blast
qed

lemma double_diff_nonzero:
  assumes "binary64 a = Fin a" "binary64 b = Fin b" "a \<noteq> b"
  shows "binary64 (b - a) \<noteq> Fin 0"
proof -
  define g where "g = (2::real) powr of_int (- 1074)"
  have g: "0 < g" by (simp add: g_def)
  from double_grid [OF assms(1)] double_grid [OF assms(2)]
  obtain na nb where a: "a = of_int na * g" and b: "b = of_int nb * g"
    unfolding g_def by blast
  from assms(3) have "nb - na \<noteq> 0" by (auto simp add: a b)
  then have "1 \<le> \<bar>nb - na\<bar>" by linarith
  then have "(1::real) \<le> of_int \<bar>nb - na\<bar>" by linarith
  then have "g \<le> of_int \<bar>nb - na\<bar> * g" using g by simp
  also have "\<dots> = \<bar>b - a\<bar>"
    using g by (simp add: a b abs_mult left_diff_distrib [symmetric])
  finally show ?thesis
    by (intro binary64_nonzero) (simp add: g_def)
qed

lemma binary64_1: "binary64 1 = Fin 1"
  using binary64_mult_pow [of 1 0] by simp

section \<open>One square\<close>

lemma upt4: "[0..<4] = [0, 1, 2, 3]"
  by (simp add: upt_rec)

lemma cell_code4:
  "cell_code [c0, c1, c2, c3] isoValue =
     (if js_gt c0 isoValue then 1 else 0) + (if js_gt c1 isoValue then 2 else 0)
     + (if js_gt c2 isoValue then 4 else 0) + (if js_gt c3 isoValue then 8 else 0)"
  by (simp add: cell_code_def upt4 nth_js_def)

lemma binary_sum4: "binary_sum [b0, b1, b2, b3] = b0 + b1 * 2 + b2 * 4 + b3 * 8"
  by (simp add: binary_sum_def upt4)

lemma binary_sum_bits:
  "binary_sum (map (\<lambda>val. if js_gt val isoValue then 1 else 0) [c0, c1, c2, c3])
     = cell_code [c0, c1, c2, c3] isoValue"
  by (simp add: binary_sum4 cell_code4)

lemma cell_code_cases:
  "cell_code [c0, c1, c2, c3] isoValue \<in> {0, 1, 2, 3, 4, 5, 6, 7, 8, 9, 10, 11, 12, 13, 14, 15}"
  by (simp add: cell_code4)

lemma classify_cell:
  "classify rnd (cell_square j i [c0, c1, c2, c3]) isoValue =
     Inr \<lparr>column = j, row = i, cornerValue = Some [c0, c1, c2, c3],
          cornerBinary = Some (map (\<lambda>val. if js_gt val isoValue then 1 else 0) [c0, c1, c2, c3]),
          basicLines =
            (let n = cell_code [c0, c1, c2, c3] isoValue;
                 m = js_ge (js_div rnd (js_add rnd (js_add rnd (js_add rnd c0 c1) c2) c3) (Fin 4)) isoValue
             in if n = 5 then Some (if m then [(0, 3), (1, 2)] else [(0, 1), (2, 3)])
                else if n = 10 then Some (if m then [(0, 1), (2, 3)] else [(0, 3), (1, 2)])
                else table_at n)\<rparr>"
  unfolding classify_def cell_square_def new_Square_def getCornerBinary_def getBasicLines_def
  by (simp only: binary_sum_bits Square.simps option.case Let_def)
     (simp add: reduce_add_def andThen_def)

lemma resolved_lines_cell:
  "resolved_lines rnd j i [c0, c1, c2, c3] isoValue =
     Inr (let n = cell_code [c0, c1, c2, c3] isoValue;
              m = js_ge (js_div rnd (js_add rnd (js_add rnd (js_add rnd c0 c1) c2) c3) (Fin 4)) isoValue
          in if n = 5 then Some (if m then [(0, 3), (1, 2)] else [(0, 1), (2, 3)])
             else if n = 10 then Some (if m then [(0, 1), (2, 3)] else [(0, 3), (1, 2)])
             else table_at n)"
  by (simp add: resolved_lines_def classify_cell andThen_def)

lemma table_at_spec:
  "n \<in> {0, 1, 2, 3, 4, 5, 6, 7, 8, 9, 10, 11, 12, 13, 14, 15} \<Longrightarrow> n \<noteq> 5 \<Longrightarrow> n \<noteq> 10
     \<Longrightarrow> table_at n = Some (spec_table1 n)"
  by (auto simp add: table_at_def basicLineTable_def spec_table1_def)

lemma table_at_lt4:
  "n \<in> {0, 1, 2, 3, 4, 5, 6, 7, 8, 9, 10, 11, 12, 13, 14, 15} \<Longrightarrow>
     \<exists>ls. table_at n = Some ls \<and> (\<forall>l \<in> set ls. fst l < 4 \<and> snd l < 4)"
  by (auto simp add: table_at_def basicLineTable_def)

lemma resolved_lines_pattern:
  "resolved_lines rnd j i [c0, c1, c2, c3] isoValue
     = Inr (Some (line_pattern rnd [c0, c1, c2, c3] isoValue))"
proof -
  obtain ls where "table_at (cell_code [c0, c1, c2, c3] isoValue) = Some ls"
    using table_at_lt4 [OF cell_code_cases] by blast
  then show ?thesis
    by (simp add: line_pattern_def resolved_lines_cell Let_def)
qed

lemma line_pattern4:
  "line_pattern rnd [c0, c1, c2, c3] isoValue =
     (let n = cell_code [c0, c1, c2, c3] isoValue;
          m = js_ge (js_div rnd (js_add rnd (js_add rnd (js_add rnd c0 c1) c2) c3) (Fin 4)) isoValue
      in if n = 5 then (if m then [(0, 3), (1, 2)] else [(0, 1), (2, 3)])
         else if n = 10 then (if m then [(0, 1), (2, 3)] else [(0, 3), (1, 2)])
         else basicLineTable ! n)"
  using cell_code_cases [of c0 c1 c2 c3 isoValue]
  by (auto simp add: line_pattern_def resolved_lines_cell Let_def table_at_def basicLineTable_def)

text \<open>
  An edge of the line pattern is one of the four, and the threshold separates its two
  corners.
\<close>

lemma crossed_edges:
  assumes "l \<in> set (line_pattern rnd [c0, c1, c2, c3] isoValue)" "e = fst l \<or> e = snd l"
  shows "e < 4 \<and> js_gt (nth_js [c0, c1, c2, c3] e) isoValue
                 \<noteq> js_gt (nth_js [c0, c1, c2, c3] ((e + 1) mod 4)) isoValue"
  using assms
  by (cases "js_gt c0 isoValue"; cases "js_gt c1 isoValue"; cases "js_gt c2 isoValue";
      cases "js_gt c3 isoValue")
     (auto simp add: line_pattern4 cell_code4 basicLineTable_def nth_js_def split: if_splits)

lemma line_pattern_lt4:
  "l \<in> set (line_pattern rnd [c0, c1, c2, c3] isoValue) \<Longrightarrow> fst l < 4 \<and> snd l < 4"
  using crossed_edges [of l rnd c0 c1 c2 c3 isoValue] by blast

lemma interpoValues4:
  "interpoValues rnd [c0, c1, c2, c3] isoValue =
     [linearInterpolation rnd c0 c1 isoValue, js_sub rnd (Fin 1) (linearInterpolation rnd c1 c2 isoValue),
      js_sub rnd (Fin 1) (linearInterpolation rnd c2 c3 isoValue), linearInterpolation rnd c3 c0 isoValue]"
  by (simp add: interpoValues_def upt4 nth_js_def)

lemma for_each_append:
  "(\<And>x s. x \<in> set xs \<Longrightarrow> f x s = Inr (s @ g x)) \<Longrightarrow>
     for_each f xs s = Inr (s @ concat (map g xs))"
  by (induction xs arbitrary: s) simp_all

lemma endPoint_lt4:
  assumes "e < 4"
  shows "endPoint rnd sq iv lngStart latStart len e =
     Inr (world_point rnd lngStart latStart len (column sq) (row sq) e (nth_js iv e))"
proof -
  from assms have "e = 0 \<or> e = 1 \<or> e = 2 \<or> e = 3" by arith
  then show ?thesis
    by (auto simp add: endPoint_def lineEndPoints_at_def lineEndPoints_def andThen_def
        world_point_def)
qed

lemma getActualLines_lt4:
  assumes "cornerValue sq = Some cv" and "basicLines sq = Some ls"
    and "\<And>l. l \<in> set ls \<Longrightarrow> fst l < 4 \<and> snd l < 4"
  shows "getActualLines rnd sq result lngStart latStart len isoValue =
     Inr (result @ map (\<lambda>l. (world_point rnd lngStart latStart len (column sq) (row sq) (fst l)
                                 (nth_js (interpoValues rnd cv isoValue) (fst l)),
                               world_point rnd lngStart latStart len (column sq) (row sq) (snd l)
                                 (nth_js (interpoValues rnd cv isoValue) (snd l)))) ls)"
proof -
  let ?g = "\<lambda>l. [(world_point rnd lngStart latStart len (column sq) (row sq) (fst l)
                    (nth_js (interpoValues rnd cv isoValue) (fst l)),
                  world_point rnd lngStart latStart len (column sq) (row sq) (snd l)
                    (nth_js (interpoValues rnd cv isoValue) (snd l)))]"
  have "for_each (\<lambda>l res.
          andThen (endPoint rnd sq (interpoValues rnd cv isoValue) lngStart latStart len (fst l)) (\<lambda>p.
          andThen (endPoint rnd sq (interpoValues rnd cv isoValue) lngStart latStart len (snd l)) (\<lambda>q.
            Inr (res @ [(p, q)])))) ls result = Inr (result @ concat (map ?g ls))"
    by (rule for_each_append) (simp add: assms(3) endPoint_lt4 andThen_def)
  moreover have "concat (map ?g ls) = map (\<lambda>l. hd (?g l)) ls"
    by (induction ls) simp_all
  ultimately show ?thesis
    by (simp add: getActualLines_def assms(1,2) Let_def)
qed

section \<open>The whole grid\<close>

lemma corners_in_range:
  "i + 1 < length discreteData \<Longrightarrow>
     corners discreteData i j = Inr (corner_values discreteData i j)"
  by (simp add: corners_def sample_def andThen_def corner_values_def)

lemma cell_step_segments:
  assumes "i + 1 < length discreteData"
  shows "cell_step rnd discreteData isoValue lngStart latStart gridSize i j result =
     Inr (result @ cell_segments rnd discreteData isoValue lngStart latStart gridSize i j)"
proof -
  obtain c0 c1 c2 c3 where cv: "corner_values discreteData i j = [c0, c1, c2, c3]"
    by (simp add: corner_values_def)
  have cl: "classify rnd (cell_square j i [c0, c1, c2, c3]) isoValue = Inr sq \<Longrightarrow>
     column sq = j \<and> row sq = i \<and> cornerValue sq = Some [c0, c1, c2, c3]
      \<and> basicLines sq = Some (line_pattern rnd [c0, c1, c2, c3] isoValue)" for sq
    using resolved_lines_pattern [of rnd j i c0 c1 c2 c3 isoValue]
    by (auto simp add: resolved_lines_def andThen_def classify_cell)
  obtain sq where sq: "classify rnd (cell_square j i [c0, c1, c2, c3]) isoValue = Inr sq"
    by (simp add: classify_cell)
  have "getActualLines rnd sq result lngStart latStart gridSize isoValue =
     Inr (result @ cell_segments rnd discreteData isoValue lngStart latStart gridSize i j)"
    using cl [OF sq] line_pattern_lt4 [of _ rnd c0 c1 c2 c3 isoValue]
    by (simp add: getActualLines_lt4 cell_segments_def cv Let_def)
  then show ?thesis
    using sq
    by (simp add: cell_step_def corners_in_range [OF assms] cv andThen_def
        classify_def cell_square_def)
qed

text \<open>
  On a grid with at least one row nothing throws, and the result is the segments of the
  squares, row by row and column by column.
\<close>

lemma marchingSquare_cells:
  assumes "discreteData \<noteq> []"
  shows "marchingSquare rnd discreteData isoValue lngStart latStart gridSize =
     Inr (concat (map (\<lambda>i. concat (map (\<lambda>j.
            cell_segments rnd discreteData isoValue lngStart latStart gridSize i j)
            [0..<length (hd discreteData) - 1])) [0..<length discreteData - 1]))"
proof -
  let ?cols = "[0..<length (hd discreteData) - 1]"
  let ?g = "\<lambda>i. concat (map (\<lambda>j.
            cell_segments rnd discreteData isoValue lngStart latStart gridSize i j) ?cols)"
  have inner: "for_each (\<lambda>j result.
      cell_step rnd discreteData isoValue lngStart latStart gridSize i j result) ?cols s
      = Inr (s @ ?g i)" if "i \<in> set [0..<length discreteData - 1]" for i s
    using that by (intro for_each_append) (simp add: cell_step_segments)
  have "for_each (\<lambda>i result. for_each (\<lambda>j result.
      cell_step rnd discreteData isoValue lngStart latStart gridSize i j result) ?cols result)
      [0..<length discreteData - 1] [] = Inr ([] @ concat (map ?g [0..<length discreteData - 1]))"
    by (rule for_each_append) (rule inner)
  with assms show ?thesis
    by (cases discreteData) (simp_all add: marchingSquare_def)
qed

lemma cells_empty:
  assumes "discreteData \<noteq> []"
    and "\<And>i j. i + 1 < length discreteData \<Longrightarrow> j + 1 < length (hd discreteData) \<Longrightarrow>
           line_pattern rnd (corner_values discreteData i j) isoValue = []"
  shows "marchingSquare rnd discreteData isoValue lngStart latStart gridSize = Inr []"
proof -
  have "cell_segments rnd discreteData isoValue lngStart latStart gridSize i j = []"
    if "i \<in> set [0..<length discreteData - 1]" "j \<in> set [0..<length (hd discreteData) - 1]"
    for i j
    using that assms(2) [of i j] by (simp add: cell_segments_def Let_def)
  then show ?thesis
    by (simp add: marchingSquare_cells [OF assms(1)])
qed

text \<open>In a rectangular grid the corners of a square are samples of the grid.\<close>

lemma corner_values_samples:
  assumes "rectangular discreteData" "i + 1 < length discreteData"
    "j + 1 < length (hd discreteData)"
  shows "\<exists>c0 c1 c2 c3. corner_values discreteData i j = [c0, c1, c2, c3]
     \<and> (\<forall>c \<in> {c0, c1, c2, c3}. \<exists>r \<in> set discreteData. c \<in> set r)"
proof -
  have r1: "discreteData ! (i + 1) \<in> set discreteData"
    and r0: "discreteData ! i \<in> set discreteData"
    using assms(2) by simp_all
  then have "length (discreteData ! (i + 1)) = length (hd discreteData)"
    "length (discreteData ! i) = length (hd discreteData)"
    using assms(1) by (simp_all add: rectangular_def)
  with assms(3) have
    "nth_js (discreteData ! (i + 1)) j \<in> set (discreteData ! (i + 1))"
    "nth_js (discreteData ! (i + 1)) (j + 1) \<in> set (discreteData ! (i + 1))"
    "nth_js (discreteData ! i) (j + 1) \<in> set (discreteData ! i)"
    "nth_js (discreteData ! i) j \<in> set (discreteData ! i)"
    by (simp_all add: nth_js_def)
  with r0 r1 show ?thesis
    unfolding corner_values_def by blast
qed

section \<open>The scenario of the specification, in exact arithmetic\<close>

lemma scenario_corners: "corner_values scenario 0 0 = [Fin 1, Fin 10, Fin 1, Fin 1]"
  by (simp add: corner_values_def scenario_def nth_js_def)

lemma scenario_pattern: "line_pattern rnd [Fin 1, Fin 10, Fin 1, Fin 1] (Fin 5) = [(0, 1)]"
  by (simp add: line_pattern4 cell_code4 basicLineTable_def)

lemma scenario_interpo:
  "interpoValues Fin [Fin 1, Fin 10, Fin 1, Fin 1] (Fin 5)
     = [Fin (4 / 9), Fin (4 / 9), NInf, PInf]"
  by (simp add: interpoValues4 linearInterpolation_def)

lemma scenario_result:
  "marchingSquare Fin scenario (Fin 5) (Fin 0) (Fin 0) (Fin 1)
     = Inr [((Fin (17 / 18), Fin (3 / 2)), (Fin (3 / 2), Fin (17 / 18)))]"
proof -
  have ne: "scenario \<noteq> []" by (simp add: scenario_def)
  have len: "length scenario = 2" "length (hd scenario) = 2" by (simp_all add: scenario_def)
  show ?thesis
    by (simp add: marchingSquare_cells [OF ne] len cell_segments_def Let_def scenario_corners
        scenario_pattern scenario_interpo world_point_def nth_js_def)
qed

section \<open>Comparisons and exact arithmetic under a uniform shift\<close>

lemma js_gt_asym: "js_gt a b \<Longrightarrow> \<not> js_gt b a"
  by (cases a; cases b) auto

lemma nth_js_shifted: "shifted k (nth_js r j) (nth_js (map (\<lambda>s. js_add Fin s (Fin k)) r) j)"
  by (simp add: nth_js_def shifted_def)

lemma corner_values_shifted:
  assumes "i + 1 < length discreteData"
  shows "\<exists>c0 c1 c2 c3 c0' c1' c2' c3'.
     corner_values discreteData i j = [c0, c1, c2, c3]
     \<and> corner_values (map (map (\<lambda>s. js_add Fin s (Fin k))) discreteData) i j
         = [c0', c1', c2', c3']
     \<and> shifted k c0 c0' \<and> shifted k c1 c1' \<and> shifted k c2 c2' \<and> shifted k c3 c3'"
  using assms by (simp add: corner_values_def nth_js_shifted)

lemma js_gt_shifted: "shifted k a a' \<Longrightarrow> js_gt a' (js_add Fin b (Fin k)) = js_gt a b"
  by (cases a; cases b) (auto simp add: shifted_def)

lemma js_add_shifted_l:
  "shifted k a a' \<Longrightarrow> js_add Fin a' y = js_add Fin (js_add Fin a (Fin k)) y"
  by (cases a; cases y) (auto simp add: shifted_def)

lemma js_add_shifted_r:
  "shifted k a a' \<Longrightarrow> js_add Fin y a' = js_add Fin y (js_add Fin a (Fin k))"
  by (cases a; cases y) (auto simp add: shifted_def)

lemma js_add_shift2:
  "js_add Fin (js_add Fin a (Fin x)) (js_add Fin b (Fin y))
     = js_add Fin (js_add Fin a b) (Fin (x + y))"
  by (cases a; cases b) simp_all

lemma js_div4_shift:
  "js_div Fin (js_add Fin s (Fin (4 * k))) (Fin 4) = js_add Fin (js_div Fin s (Fin 4)) (Fin k)"
  by (cases s) (simp_all add: field_simps)

lemma js_ge_shift: "js_ge (js_add Fin a (Fin k)) (js_add Fin b (Fin k)) = js_ge a b"
  by (cases a; cases b) simp_all

lemma mean_shifted:
  assumes "shifted k c0 c0'" "shifted k c1 c1'" "shifted k c2 c2'" "shifted k c3 c3'"
  shows "js_ge (js_div Fin (js_add Fin (js_add Fin (js_add Fin c0' c1') c2') c3') (Fin 4))
           (js_add Fin isoValue (Fin k))
     = js_ge (js_div Fin (js_add Fin (js_add Fin (js_add Fin c0 c1) c2) c3) (Fin 4)) isoValue"
proof -
  have "js_add Fin (js_add Fin (js_add Fin c0' c1') c2') c3'
      = js_add Fin (js_add Fin (js_add Fin (js_add Fin c0 (Fin k)) (js_add Fin c1 (Fin k)))
                     (js_add Fin c2 (Fin k)))
          (js_add Fin c3 (Fin k))"
    by (simp only: js_add_shifted_l [OF assms(1)] js_add_shifted_r [OF assms(2)]
        js_add_shifted_r [OF assms(3)] js_add_shifted_r [OF assms(4)])
  also have "\<dots> = js_add Fin (js_add Fin (js_add Fin (js_add Fin c0 c1) c2) c3) (Fin (4 * k))"
    by (simp add: js_add_shift2)
  finally show ?thesis
    by (simp only: js_div4_shift js_ge_shift)
qed

lemma line_pattern_shifted:
  assumes "shifted k c0 c0'" "shifted k c1 c1'" "shifted k c2 c2'" "shifted k c3 c3'"
  shows "line_pattern Fin [c0', c1', c2', c3'] (js_add Fin isoValue (Fin k))
     = line_pattern Fin [c0, c1, c2, c3] isoValue"
  by (simp add: line_pattern4 cell_code4 js_gt_shifted [OF assms(1)] js_gt_shifted [OF assms(2)]
      js_gt_shifted [OF assms(3)] js_gt_shifted [OF assms(4)] mean_shifted [OF assms])

lemma linearInterpolation_shifted:
  assumes "shifted k a a'" "shifted k b b'" "js_gt a isoValue \<noteq> js_gt b isoValue"
  shows "linearInterpolation Fin a' b' (js_add Fin isoValue (Fin k))
     = linearInterpolation Fin a b isoValue"
  using assms
  by (cases a; cases b; cases isoValue) (auto simp add: shifted_def linearInterpolation_def)

lemma interpoValues_shifted:
  assumes sh: "shifted k c0 c0'" "shifted k c1 c1'" "shifted k c2 c2'" "shifted k c3 c3'"
    and "e < 4" and "js_gt (nth_js [c0, c1, c2, c3] e) isoValue
                 \<noteq> js_gt (nth_js [c0, c1, c2, c3] ((e + 1) mod 4)) isoValue"
  shows "nth_js (interpoValues Fin [c0', c1', c2', c3'] (js_add Fin isoValue (Fin k))) e
     = nth_js (interpoValues Fin [c0, c1, c2, c3] isoValue) e"
proof -
  from \<open>e < 4\<close> have "e = 0 \<or> e = 1 \<or> e = 2 \<or> e = 3" by arith
  then show ?thesis
    using assms(6) linearInterpolation_shifted [OF sh(1) sh(2), of isoValue]
      linearInterpolation_shifted [OF sh(2) sh(3), of isoValue]
      linearInterpolation_shifted [OF sh(3) sh(4), of isoValue]
      linearInterpolation_shifted [OF sh(4) sh(1), of isoValue]
    by (auto simp add: interpoValues4 nth_js_def)
qed

lemma cell_segments_shift:
  assumes "i + 1 < length discreteData"
  shows "cell_segments Fin (map (map (\<lambda>s. js_add Fin s (Fin k))) discreteData)
           (js_add Fin isoValue (Fin k)) lngStart latStart gridSize i j
     = cell_segments Fin discreteData isoValue lngStart latStart gridSize i j"
proof -
  from corner_values_shifted [OF assms, of j k]
  obtain c0 c1 c2 c3 c0' c1' c2' c3' where
    cv: "corner_values discreteData i j = [c0, c1, c2, c3]" and
    cv': "corner_values (map (map (\<lambda>s. js_add Fin s (Fin k))) discreteData) i j
            = [c0', c1', c2', c3']" and
    sh: "shifted k c0 c0'" "shifted k c1 c1'" "shifted k c2 c2'" "shifted k c3 c3'"
    by blast
  have "nth_js (interpoValues Fin [c0', c1', c2', c3'] (js_add Fin isoValue (Fin k))) e
     = nth_js (interpoValues Fin [c0, c1, c2, c3] isoValue) e"
    if "l \<in> set (line_pattern Fin [c0, c1, c2, c3] isoValue)" "e = fst l \<or> e = snd l" for l e
    using crossed_edges [OF that] interpoValues_shifted [OF sh] by blast
  then show ?thesis
    by (simp add: cell_segments_def Let_def cv cv' line_pattern_shifted [OF sh])
qed

section \<open>Finite values\<close>

lemma is_finite_iff: "is_finite v \<longleftrightarrow> (\<exists>x. v = Fin x)"
  by (cases v) (simp_all add: is_finite_def)






section \<open>Some doubles\<close>

lemma binary64_values:
  "binary64 2 = Fin 2" "binary64 4 = Fin 4" "binary64 (- 2) = Fin (- 2)"
  "binary64 (- 4) = Fin (- 4)" "binary64 3 = Fin 3" "binary64 (- 3) = Fin (- 3)"
  "binary64 (1 / 2) = Fin (1 / 2)" "binary64 (3 / 2) = Fin (3 / 2)"
  "binary64 (5 / 2) = Fin (5 / 2)" "binary64 9 = Fin 9" "binary64 10 = Fin 10"
  using binary64_mult_pow [of 2 0] binary64_mult_pow [of 4 0] binary64_mult_pow [of "- 2" 0]
    binary64_mult_pow [of "- 4" 0] binary64_mult_pow [of 3 0] binary64_mult_pow [of "- 3" 0]
    binary64_div_pow [of 1 1] binary64_div_pow [of 3 1] binary64_div_pow [of 5 1]
    binary64_mult_pow [of 9 0] binary64_mult_pow [of 10 0]
  by simp_all

lemma binary64_large:
  "binary64 (2 ^ 1023) = Fin (2 ^ 1023)" "binary64 (- (2 ^ 1023)) = Fin (- (2 ^ 1023))"
  "binary64 (3 * 2 ^ 1022) = Fin (3 * 2 ^ 1022)"
  "binary64 (2 ^ 1024) = PInf" "binary64 (5 * 2 ^ 1022) = PInf"
  "binary64 (2 ^ 53 + 2) = Fin (2 ^ 53 + 2)" "binary64 (2 ^ 52 + 2) = Fin (2 ^ 52 + 2)"
  "binary64 (2 ^ 52 + 1) = Fin (2 ^ 52 + 1)"
  "binary64 ((2 ^ 52 + 1) / 2 ^ 53) = Fin ((2 ^ 52 + 1) / 2 ^ 53)"
  using binary64_mult_pow [of "2 ^ 52" 971] binary64_mult_pow [of "- (2 ^ 52)" 971]
    binary64_mult_pow [of "3 * 2 ^ 51" 971]
    binary64_overflow [of "2 ^ 1024"] binary64_overflow [of "5 * 2 ^ 1022"]
    binary64_mult_pow [of "2 ^ 52 + 1" 1] binary64_mult_pow [of "2 ^ 52 + 2" 0]
    binary64_mult_pow [of "2 ^ 52 + 1" 0] binary64_div_pow [of "2 ^ 52 + 1" 53]
  by simp_all

lemma binary64_tie_up: "binary64 (2 ^ 53 + 3) = Fin (2 ^ 53 + 4)"
proof -
  have "ulp_exponent (2 ^ 53 + 3) = max (53 - 52) (- 1074)"
    by (rule ulp_exponent_bracket) simp_all
  then show ?thesis
    by (simp add: binary64_def round_ties_even_def)
qed

lemma binary64_tie_down: "binary64 (2 ^ 53 + 1) = Fin (2 ^ 53)"
proof -
  have "ulp_exponent (2 ^ 53 + 1) = max (53 - 52) (- 1074)"
    by (rule ulp_exponent_bracket) simp_all
  then show ?thesis
    by (simp add: binary64_def round_ties_even_def)
qed

section \<open>The two grids of claim C10, in double precision\<close>








section \<open>The claims\<close>

subsection \<open>C1: the endpoints of a segment\<close>

text \<open>
  Claim C1 as stated does not hold. On the scenario grid the single square has the pattern
  \<open>(0, 1)\<close> and the position \<open>4/9\<close> on both edges; in exact arithmetic the program returns
  the endpoints \<open>(17/18, 3/2)\<close> and \<open>(3/2, 17/18)\<close>, where the stated projection gives
  \<open>(4/9, 1)\<close> and \<open>(1, 4/9)\<close>.
\<close>

theorem segment_endpoints_counterexample:
  "marchingSquare Fin scenario (Fin 5) (Fin 0) (Fin 0) (Fin 1)
     = Inr [((Fin (17 / 18), Fin (3 / 2)), (Fin (3 / 2), Fin (17 / 18)))]
   \<and> line_pattern Fin (corner_values scenario 0 0) (Fin 5) = [(0, 1)]
   \<and> nth_js (interpoValues Fin (corner_values scenario 0 0) (Fin 5)) 0 = Fin (4 / 9)
   \<and> nth_js (interpoValues Fin (corner_values scenario 0 0) (Fin 5)) 1 = Fin (4 / 9)
   \<and> spec_point Fin (Fin 0) (Fin 0) (Fin 1) 0 0 0 (Fin (4 / 9)) = (Fin (4 / 9), Fin 1)
   \<and> spec_point Fin (Fin 0) (Fin 0) (Fin 1) 0 0 1 (Fin (4 / 9)) = (Fin 1, Fin (4 / 9))"
  by (simp add: scenario_result scenario_corners scenario_pattern scenario_interpo
      nth_js_def spec_point_def)

text \<open>
  Claim C1, amended. On a grid with at least one row, the result is, for every enumerated
  square (column \<open>j\<close>, row \<open>i\<close>) in row-major order and every edge pair \<open>(e1, e2)\<close> of its
  resolved line pattern in order, one segment; its endpoint for an edge \<open>e\<close> whose
  interpolation value is \<open>t\<close> is \<open>world_point\<close>: for \<open>e = 0\<close> and \<open>e = 2\<close>,
  \<open>x = lngStart + (j + 1/2 + t) * gridSize\<close> and \<open>y = latStart + (i + baseY + 1/2) * gridSize\<close>
  with \<open>baseY = 1\<close> for edge 0 and \<open>0\<close> for edge 2; for \<open>e = 1\<close> and \<open>e = 3\<close>,
  \<open>x = lngStart + (j + baseX + 1/2) * gridSize\<close> with \<open>baseX = 1\<close> for edge 1 and \<open>0\<close> for
  edge 3, and \<open>y = latStart + (i + 1/2 + t) * gridSize\<close>. This holds in every arithmetic, that
  of doubles and the exact one.
\<close>

theorem segment_endpoints:
  "discreteData \<noteq> [] \<Longrightarrow>
   marchingSquare rnd discreteData isoValue lngStart latStart gridSize =
     Inr (concat (map (\<lambda>i. concat (map (\<lambda>j.
            map (\<lambda>l. (world_point rnd lngStart latStart gridSize j i (fst l)
                         (nth_js (interpoValues rnd (corner_values discreteData i j) isoValue)
                            (fst l)),
                       world_point rnd lngStart latStart gridSize j i (snd l)
                         (nth_js (interpoValues rnd (corner_values discreteData i j) isoValue)
                            (snd l))))
              (line_pattern rnd (corner_values discreteData i j) isoValue))
            [0..<length (hd discreteData) - 1])) [0..<length discreteData - 1]))"
  by (simp add: marchingSquare_cells cell_segments_def Let_def)

theorem segment_endpoints_witness:
  "scenario \<noteq> [] \<and>
   marchingSquare Fin scenario (Fin 5) (Fin 0) (Fin 0) (Fin 1) =
     Inr [(world_point Fin (Fin 0) (Fin 0) (Fin 1) 0 0 0 (Fin (4 / 9)),
           world_point Fin (Fin 0) (Fin 0) (Fin 1) 0 0 1 (Fin (4 / 9)))]"
proof -
  have ne: "scenario \<noteq> []" by (simp add: scenario_def)
  have "length scenario = 2" "length (hd scenario) = 2" by (simp_all add: scenario_def)
  with segment_endpoints [OF ne, of Fin "Fin 5" "Fin 0" "Fin 0" "Fin 1"] ne show ?thesis
    by (simp add: scenario_corners scenario_pattern scenario_interpo nth_js_def)
qed

subsection \<open>C2: the flipped sides\<close>

text \<open>
  Claim C2 as stated does not hold. With the corner values 0, 10, 0, 10 and the threshold 2,
  the value kept for edge 2 is not the raw position of edge 2, and the value kept for edge 3
  is not one minus the raw position of edge 3.
\<close>

theorem flipped_sides_counterexample:
  "nth_js (interpoValues Fin [Fin 0, Fin 10, Fin 0, Fin 10] (Fin 2)) 2
      \<noteq> linearInterpolation Fin (Fin 0) (Fin 10) (Fin 2)
   \<and> nth_js (interpoValues Fin [Fin 0, Fin 10, Fin 0, Fin 10] (Fin 2)) 3
      \<noteq> js_sub Fin (Fin 1) (linearInterpolation Fin (Fin 10) (Fin 0) (Fin 2))"
  by (simp add: interpoValues4 linearInterpolation_def nth_js_def)

text \<open>
  Claim C2, amended. After the raw positions
  \<open>t_k = linearInterpolation(cornerValue[k], cornerValue[(k + 1) mod 4], isoValue)\<close> of the four
  edges, exactly the values of edges 1 and 2 are replaced by \<open>1 - t_k\<close>, and the values of
  edges 0 and 3 are kept, in every arithmetic; and between two different finite corner values
  \<open>a\<close> and \<open>b\<close> the raw position is, in exact arithmetic, \<open>(isoValue - a) / (b - a)\<close>.
\<close>

theorem flipped_sides:
  "interpoValues rnd [c0, c1, c2, c3] isoValue =
     [linearInterpolation rnd c0 c1 isoValue,
      js_sub rnd (Fin 1) (linearInterpolation rnd c1 c2 isoValue),
      js_sub rnd (Fin 1) (linearInterpolation rnd c2 c3 isoValue),
      linearInterpolation rnd c3 c0 isoValue]
   \<and> (a \<noteq> b \<longrightarrow> linearInterpolation Fin (Fin a) (Fin b) (Fin x) = Fin ((x - a) / (b - a)))"
  by (simp add: interpoValues4 linearInterpolation_def)

theorem flipped_sides_witness:
  "interpoValues Fin [Fin 0, Fin 10, Fin 0, Fin 10] (Fin 2)
     = [Fin (1 / 5), Fin (1 / 5), Fin (4 / 5), Fin (4 / 5)]
   \<and> linearInterpolation Fin (Fin 0) (Fin 10) (Fin 2) = Fin (1 / 5)"
  using flipped_sides [of Fin "Fin 0" "Fin 10" "Fin 0" "Fin 10" "Fin 2" 0 10 2]
  by (simp add: linearInterpolation_def)

subsection \<open>C3: grids without a square\<close>

text \<open>
  Claim C3 as stated does not hold: on the grid with zero rows the read of
  \<^verbatim>\<open>discreteData[0].length\<close> throws.
\<close>

theorem degenerate_grid_counterexample:
  "marchingSquare binary64 [] (Fin 5) (Fin 0) (Fin 0) (Fin 1) = Inl TypeError"
  by (simp add: marchingSquare_def)

text \<open>
  Claim C3, amended. For every grid with at least one row, and fewer than two rows or fewer
  than two columns (the length of the first row), \<^verbatim>\<open>marchingSquare\<close> returns the empty
  segment list and throws nothing.
\<close>

theorem degenerate_grid:
  "discreteData \<noteq> [] \<Longrightarrow> length discreteData < 2 \<or> length (hd discreteData) < 2 \<Longrightarrow>
     marchingSquare rnd discreteData isoValue lngStart latStart gridSize = Inr []"
  by (auto simp add: marchingSquare_cells)

theorem degenerate_grid_witness:
  "marchingSquare binary64 [[Fin 1, Fin 9, Fin 1]] (Fin 5) (Fin 0) (Fin 0) (Fin 1) = Inr []
   \<and> marchingSquare binary64 [[Fin 1], [Fin 9], [Fin 1]] (Fin 5) (Fin 0) (Fin 0) (Fin 1) = Inr []"
  using degenerate_grid [of "[[Fin 1, Fin 9, Fin 1]]" binary64 "Fin 5" "Fin 0" "Fin 0" "Fin 1"]
    degenerate_grid [of "[[Fin 1], [Fin 9], [Fin 1]]" binary64 "Fin 5" "Fin 0" "Fin 0" "Fin 1"]
  by simp

subsection \<open>C4: the table\<close>

text \<open>
  Claim C4. For every square, with bit \<open>k\<close> set exactly when corner \<open>k\<close> is strictly greater
  than the threshold and the code the sum of the bits weighted by \<open>2 ^ k\<close>: whenever the code
  is neither 5 nor 10, the line pattern the square holds after classification is the entry
  of Table 1 for the code.
\<close>

theorem basic_lines_table:
  "cell_code [c0, c1, c2, c3] isoValue \<noteq> 5 \<Longrightarrow> cell_code [c0, c1, c2, c3] isoValue \<noteq> 10 \<Longrightarrow>
     resolved_lines rnd j i [c0, c1, c2, c3] isoValue
       = Inr (Some (spec_table1 (cell_code [c0, c1, c2, c3] isoValue)))"
  using table_at_spec [OF cell_code_cases, of c0 c1 c2 c3 isoValue]
  by (simp add: resolved_lines_cell Let_def)

theorem basic_lines_table_witness:
  "cell_code [Fin 1, Fin 10, Fin 10, Fin 1] (Fin 5) = 6
   \<and> resolved_lines binary64 0 0 [Fin 1, Fin 10, Fin 10, Fin 1] (Fin 5) = Inr (Some [(0, 2)])"
  using basic_lines_table [of "Fin 1" "Fin 10" "Fin 10" "Fin 1" "Fin 5" binary64 0 0]
  by (simp add: cell_code4 spec_table1_def)

subsection \<open>C5: the saddles\<close>

text \<open>
  Claim C5. For every square whose code is 5, the resolved pattern is \<open>(0,3), (1,2)\<close> if the
  mean of the four corner values, as the program computes it, is at least the threshold and
  \<open>(0,1), (2,3)\<close> otherwise; for every square whose code is 10, it is \<open>(0,1), (2,3)\<close> if the
  mean is at least the threshold and \<open>(0,3), (1,2)\<close> otherwise.
\<close>

theorem saddle_resolution:
  "(cell_code [c0, c1, c2, c3] isoValue = 5 \<longrightarrow>
      resolved_lines rnd j i [c0, c1, c2, c3] isoValue =
        Inr (Some (if js_ge (js_div rnd (js_add rnd (js_add rnd (js_add rnd c0 c1) c2) c3) (Fin 4))
                        isoValue
                   then [(0, 3), (1, 2)] else [(0, 1), (2, 3)])))
   \<and> (cell_code [c0, c1, c2, c3] isoValue = 10 \<longrightarrow>
      resolved_lines rnd j i [c0, c1, c2, c3] isoValue =
        Inr (Some (if js_ge (js_div rnd (js_add rnd (js_add rnd (js_add rnd c0 c1) c2) c3) (Fin 4))
                        isoValue
                   then [(0, 1), (2, 3)] else [(0, 3), (1, 2)])))"
  by (simp add: resolved_lines_cell Let_def)

theorem saddle_resolution_witness:
  "cell_code [Fin 5, Fin 1, Fin 5, Fin 1] (Fin 3) = 5
   \<and> resolved_lines Fin 0 0 [Fin 5, Fin 1, Fin 5, Fin 1] (Fin 3) = Inr (Some [(0, 3), (1, 2)])
   \<and> cell_code [Fin 5, Fin 1, Fin 5, Fin 1] (Fin 4) = 5
   \<and> resolved_lines Fin 0 0 [Fin 5, Fin 1, Fin 5, Fin 1] (Fin 4) = Inr (Some [(0, 1), (2, 3)])
   \<and> cell_code [Fin 1, Fin 5, Fin 1, Fin 5] (Fin 3) = 10
   \<and> resolved_lines Fin 0 0 [Fin 1, Fin 5, Fin 1, Fin 5] (Fin 3) = Inr (Some [(0, 1), (2, 3)])
   \<and> cell_code [Fin 1, Fin 5, Fin 1, Fin 5] (Fin 4) = 10
   \<and> resolved_lines Fin 0 0 [Fin 1, Fin 5, Fin 1, Fin 5] (Fin 4) = Inr (Some [(0, 3), (1, 2)])"
  using saddle_resolution [of "Fin 5" "Fin 1" "Fin 5" "Fin 1" "Fin 3" Fin 0 0]
    saddle_resolution [of "Fin 5" "Fin 1" "Fin 5" "Fin 1" "Fin 4" Fin 0 0]
    saddle_resolution [of "Fin 1" "Fin 5" "Fin 1" "Fin 5" "Fin 3" Fin 0 0]
    saddle_resolution [of "Fin 1" "Fin 5" "Fin 1" "Fin 5" "Fin 4" Fin 0 0]
  by (simp add: cell_code4)

subsection \<open>C6: the concrete scenario\<close>

text \<open>
  Claim C6. With the grid \<open>[[1, 1], [1, 10]]\<close>, the threshold 5, the origin \<open>(0, 0)\<close> and the
  grid size 1, \<^verbatim>\<open>marchingSquare\<close> returns exactly one segment; it joins the crossing on the
  bottom edge (edge 0) to the crossing on the right edge (edge 1) of the single square, and
  both crossings lie at the fraction \<open>4/9\<close> along their edge, the linear interpolation of the
  threshold 5 between the values 1 and 10. The values are those of exact arithmetic.
\<close>

theorem scenario_single_segment:
  "marchingSquare Fin [[Fin 1, Fin 1], [Fin 1, Fin 10]] (Fin 5) (Fin 0) (Fin 0) (Fin 1)
     = Inr [((Fin (17 / 18), Fin (3 / 2)), (Fin (3 / 2), Fin (17 / 18)))]
   \<and> world_point Fin (Fin 0) (Fin 0) (Fin 1) 0 0 0 (Fin (4 / 9)) = (Fin (17 / 18), Fin (3 / 2))
   \<and> world_point Fin (Fin 0) (Fin 0) (Fin 1) 0 0 1 (Fin (4 / 9)) = (Fin (3 / 2), Fin (17 / 18))
   \<and> line_pattern Fin (corner_values [[Fin 1, Fin 1], [Fin 1, Fin 10]] 0 0) (Fin 5) = [(0, 1)]
   \<and> nth_js (interpoValues Fin (corner_values [[Fin 1, Fin 1], [Fin 1, Fin 10]] 0 0) (Fin 5)) 0
       = Fin (4 / 9)
   \<and> nth_js (interpoValues Fin (corner_values [[Fin 1, Fin 1], [Fin 1, Fin 10]] 0 0) (Fin 5)) 1
       = Fin (4 / 9)
   \<and> linearInterpolation Fin (Fin 1) (Fin 10) (Fin 5) = Fin (4 / 9)"
  using scenario_result scenario_corners
  by (simp add: scenario_def scenario_pattern scenario_interpo nth_js_def world_point_def
      linearInterpolation_def)

subsection \<open>C7: a threshold outside the samples\<close>

text \<open>
  Claim C7. For every rectangular grid with at least one row and every threshold that is
  strictly greater than every sample, or strictly less than every sample, \<^verbatim>\<open>marchingSquare\<close>
  returns the empty segment list.
\<close>

theorem no_crossing_empty:
  assumes "discreteData \<noteq> []" and "rectangular discreteData"
    and "(\<forall>r \<in> set discreteData. \<forall>s \<in> set r. js_gt isoValue s)
         \<or> (\<forall>r \<in> set discreteData. \<forall>s \<in> set r. js_gt s isoValue)"
  shows "marchingSquare rnd discreteData isoValue lngStart latStart gridSize = Inr []"
proof (rule cells_empty [OF assms(1)])
  fix i j
  assume "i + 1 < length discreteData" "j + 1 < length (hd discreteData)"
  from corner_values_samples [OF assms(2) this]
  obtain c0 c1 c2 c3 where cv: "corner_values discreteData i j = [c0, c1, c2, c3]"
    and mem: "\<forall>c \<in> {c0, c1, c2, c3}. \<exists>r \<in> set discreteData. c \<in> set r"
    by blast
  from assms(3) show "line_pattern rnd (corner_values discreteData i j) isoValue = []"
  proof
    assume "\<forall>r \<in> set discreteData. \<forall>s \<in> set r. js_gt isoValue s"
    with mem have "\<forall>c \<in> {c0, c1, c2, c3}. \<not> js_gt c isoValue"
      by (meson js_gt_asym)
    then show ?thesis
      by (simp add: cv line_pattern4 cell_code4 basicLineTable_def)
  next
    assume "\<forall>r \<in> set discreteData. \<forall>s \<in> set r. js_gt s isoValue"
    with mem have "\<forall>c \<in> {c0, c1, c2, c3}. js_gt c isoValue"
      by meson
    then show ?thesis
      by (simp add: cv line_pattern4 cell_code4 basicLineTable_def)
  qed
qed

theorem no_crossing_empty_witness:
  "marchingSquare binary64 [[Fin 1, Fin 2, Fin 3], [Fin 4, Fin 5, Fin 6]] (Fin 7)
       (Fin 0) (Fin 0) (Fin 1)
     = Inr []
   \<and> marchingSquare binary64 [[Fin 1, Fin 2, Fin 3], [Fin 4, Fin 5, Fin 6]] (Fin 0)
       (Fin 0) (Fin 0) (Fin 1)
     = Inr []"
  using no_crossing_empty [of "[[Fin 1, Fin 2, Fin 3], [Fin 4, Fin 5, Fin 6]]" "Fin 7"
      binary64 "Fin 0" "Fin 0" "Fin 1"]
    no_crossing_empty [of "[[Fin 1, Fin 2, Fin 3], [Fin 4, Fin 5, Fin 6]]" "Fin 0"
      binary64 "Fin 0" "Fin 0" "Fin 1"]
  by (simp add: rectangular_def)

subsection \<open>C8: a uniform shift\<close>

text \<open>
  Claim C8. For every grid, threshold, origin, grid size and every constant \<open>k\<close>, in exact
  arithmetic: \<^verbatim>\<open>marchingSquare\<close> on the grid with \<open>k\<close> added to every sample and with the
  threshold \<open>isoValue + k\<close>, the origin and the grid size unchanged, returns exactly what it
  returns on the grid and the threshold themselves.
\<close>

theorem uniform_shift_invariant:
  "marchingSquare Fin (map (map (\<lambda>s. js_add Fin s (Fin k))) discreteData)
           (js_add Fin isoValue (Fin k)) lngStart latStart gridSize
     = marchingSquare Fin discreteData isoValue lngStart latStart gridSize"
proof (cases "discreteData = []")
  case True
  then show ?thesis by (simp add: marchingSquare_def)
next
  case False
  let ?d = "map (map (\<lambda>s. js_add Fin s (Fin k))) discreteData"
  have ne: "?d \<noteq> []" using False by simp
  have len: "length ?d = length discreteData" "length (hd ?d) = length (hd discreteData)"
    using False by (simp_all add: hd_map)
  have "cell_segments Fin ?d (js_add Fin isoValue (Fin k)) lngStart latStart gridSize i j
      = cell_segments Fin discreteData isoValue lngStart latStart gridSize i j"
    if "i \<in> set [0..<length discreteData - 1]" for i j
    using that by (intro cell_segments_shift) simp
  then have "map (\<lambda>i. concat (map (\<lambda>j.
        cell_segments Fin ?d (js_add Fin isoValue (Fin k)) lngStart latStart gridSize i j)
        [0..<length (hd discreteData) - 1])) [0..<length discreteData - 1]
    = map (\<lambda>i. concat (map (\<lambda>j.
        cell_segments Fin discreteData isoValue lngStart latStart gridSize i j)
        [0..<length (hd discreteData) - 1])) [0..<length discreteData - 1]"
    by (intro map_cong refl) simp
  then show ?thesis
    by (simp only: marchingSquare_cells [OF ne] marchingSquare_cells [OF False] len)
qed

theorem uniform_shift_invariant_witness:
  "marchingSquare Fin [[Fin 4, Fin 4], [Fin 4, Fin 13]] (Fin 8) (Fin 0) (Fin 0) (Fin 1)
     = marchingSquare Fin [[Fin 1, Fin 1], [Fin 1, Fin 10]] (Fin 5) (Fin 0) (Fin 0) (Fin 1)"
  using uniform_shift_invariant [of 3 "[[Fin 1, Fin 1], [Fin 1, Fin 10]]" "Fin 5"
      "Fin 0" "Fin 0" "Fin 1"]
  by simp

subsection \<open>C9: \<^verbatim>\<open>linearInterpolation\<close>\<close>

text \<open>
  Claim C9 as stated does not hold, in double precision. \<^verbatim>\<open>linearInterpolation(NaN, NaN, 0)\<close>
  is \<^verbatim>\<open>NaN\<close>, not \<^verbatim>\<open>Infinity\<close>, since \<^verbatim>\<open>NaN === NaN\<close> is false;
  \<^verbatim>\<open>linearInterpolation(Infinity, 0, Infinity)\<close> is \<^verbatim>\<open>NaN\<close>, not 0; with \<open>v1 = -2^1023\<close> and
  \<open>v2 = 2^1023\<close> the difference \<open>v2 - v1\<close> overflows and \<^verbatim>\<open>linearInterpolation(v1, v2, v2)\<close> is
  \<^verbatim>\<open>NaN\<close>, not 1; and with \<open>v1 = 1\<close> and \<open>v2 = 2^53 + 2\<close> the midpoint \<open>(v1 + v2) / 2\<close> is
  computed as \<open>2^52 + 2\<close>, where \<^verbatim>\<open>linearInterpolation\<close> returns \<open>1/2 + 2^-53\<close>, not 0.5.
  The numbers \<open>-2^1023\<close>, \<open>2^1023\<close> and \<open>2^53 + 2\<close> are doubles.
\<close>

theorem linearInterpolation_sanity_counterexample:
  "binary64 (- (2 ^ 1023)) = Fin (- (2 ^ 1023)) \<and> binary64 (2 ^ 1023) = Fin (2 ^ 1023)
   \<and> binary64 (2 ^ 53 + 2) = Fin (2 ^ 53 + 2)
   \<and> linearInterpolation binary64 NaN NaN (Fin 0) = NaN
   \<and> linearInterpolation binary64 PInf (Fin 0) PInf = NaN
   \<and> linearInterpolation binary64 (Fin (- (2 ^ 1023))) (Fin (2 ^ 1023)) (Fin (2 ^ 1023)) = NaN
   \<and> js_div binary64 (js_add binary64 (Fin 1) (Fin (2 ^ 53 + 2))) (Fin 2) = Fin (2 ^ 52 + 2)
   \<and> linearInterpolation binary64 (Fin 1) (Fin (2 ^ 53 + 2)) (Fin (2 ^ 52 + 2))
       = Fin (1 / 2 + 1 / 2 ^ 53)"
  using binary64_large binary64_tie_up binary64_tie_down
  by (simp add: linearInterpolation_def)

text \<open>
  Claim C9, amended. For all doubles \<open>v1 \<noteq> v2\<close>, \<^verbatim>\<open>linearInterpolation(v1, v2, v1)\<close> is 0, and
  \<^verbatim>\<open>linearInterpolation(v1, v2, v2)\<close> is 1 whenever the difference \<open>v2 - v1\<close> does not
  overflow; in exact arithmetic, for all finite \<open>v1 \<noteq> v2\<close>,
  \<^verbatim>\<open>linearInterpolation(v1, v2, (v1 + v2) / 2)\<close> is 0.5; and for every \<open>v\<close> other than
  \<^verbatim>\<open>NaN\<close> and every third argument \<open>x\<close>, in every arithmetic,
  \<^verbatim>\<open>linearInterpolation(v, v, x)\<close> is \<^verbatim>\<open>Infinity\<close>.
\<close>

theorem linearInterpolation_sanity:
  "(binary64 v1 = Fin v1 \<and> binary64 v2 = Fin v2 \<and> v1 \<noteq> v2 \<longrightarrow>
      linearInterpolation binary64 (Fin v1) (Fin v2) (Fin v1) = Fin 0
    \<and> (is_finite (js_sub binary64 (Fin v2) (Fin v1)) \<longrightarrow>
         linearInterpolation binary64 (Fin v1) (Fin v2) (Fin v2) = Fin 1))
   \<and> (v1 \<noteq> v2 \<longrightarrow>
      linearInterpolation Fin (Fin v1) (Fin v2)
          (js_div Fin (js_add Fin (Fin v1) (Fin v2)) (Fin 2))
        = Fin (1 / 2))
   \<and> (v \<noteq> NaN \<longrightarrow> linearInterpolation rnd v v x = PInf)"
proof (intro conjI impI)
  assume a: "binary64 v1 = Fin v1 \<and> binary64 v2 = Fin v2 \<and> v1 \<noteq> v2"
  then have nz: "binary64 (v2 - v1) \<noteq> Fin 0" by (simp add: double_diff_nonzero)
  have z: "binary64 0 = Fin 0" by (simp add: binary64_def)
  from a nz show "linearInterpolation binary64 (Fin v1) (Fin v2) (Fin v1) = Fin 0"
    using binary64_number [of "v2 - v1"]
    by (cases "binary64 (v2 - v1)") (simp_all add: linearInterpolation_def z)
  assume "is_finite (js_sub binary64 (Fin v2) (Fin v1))"
  then obtain q where q: "binary64 (v2 - v1) = Fin q" by (auto simp add: is_finite_iff)
  with nz have "q \<noteq> 0" by simp
  with a q show "linearInterpolation binary64 (Fin v1) (Fin v2) (Fin v2) = Fin 1"
    by (simp add: linearInterpolation_def binary64_1)
next
  assume "v1 \<noteq> v2"
  moreover have "(v1 + v2) / 2 - v1 = (v2 - v1) / 2" by (simp add: field_simps)
  ultimately show "linearInterpolation Fin (Fin v1) (Fin v2)
      (js_div Fin (js_add Fin (Fin v1) (Fin v2)) (Fin 2)) = Fin (1 / 2)"
    by (simp add: linearInterpolation_def)
next
  assume "v \<noteq> NaN"
  then show "linearInterpolation rnd v v x = PInf"
    by (cases v) (simp_all add: linearInterpolation_def)
qed

theorem linearInterpolation_sanity_witness:
  "linearInterpolation binary64 (Fin 1) (Fin 10) (Fin 1) = Fin 0
    \<and> linearInterpolation binary64 (Fin 1) (Fin 10) (Fin 10) = Fin 1
    \<and> linearInterpolation Fin (Fin 1) (Fin 10) (js_div Fin (js_add Fin (Fin 1) (Fin 10)) (Fin 2))
        = Fin (1 / 2)
    \<and> linearInterpolation binary64 PInf PInf NaN = PInf"
  using linearInterpolation_sanity [of 1 10 PInf binary64 NaN] binary64_values binary64_1
  by (simp add: is_finite_def)

subsection \<open>C10: finite output\<close>




end
